theory Spec2Isabelle
  imports Complex_Main
begin

section \<open>Data model (types/game and the state hooks of App)\<close>

text \<open>
  The interface \<open>Block\<close>. The fields \<open>id\<close> and \<open>value\<close> carry the suffix \<open>_b\<close>
  because the plain names are taken in HOL. The optional field \<open>isNew\<close> is an option:
  \<open>None\<close> is the absent field. Numbers that the program only ever uses as integers are
  \<open>int\<close>; the scroll progress is a fraction and is modelled with exact rationals.
\<close>

record block =
  id_b :: string
  value_b :: int
  row :: int
  col :: int
  isNew :: "bool option"

datatype GameMode = Classic | Time

text \<open>
  The state hooks of the component \<open>App\<close> that the simulation reads or writes. The hooks
  \<open>highScore\<close> and \<open>language\<close> only feed the view and are left out.
\<close>

record app_state =
  blocks :: "block list"
  targetSum :: int
  score :: int
  selectedIds :: "string list"
  gameOver :: bool
  mode :: GameMode
  isPaused :: bool
  level :: int
  gameStarted :: bool
  startLevel :: int
  scrollProgress :: rat
  blocksClearedInLevel :: int
  showLevelUp :: bool

text \<open>
  Effects that leave the state: the confetti call and the timer that hides the level-up
  toast after the given number of milliseconds.
\<close>

datatype effect = Confetti | HideLevelUpAfter nat

definition GRID_ROWS :: int where "GRID_ROWS = 10"
definition GRID_COLS :: nat where "GRID_COLS = 6"
definition INITIAL_ROWS :: nat where "INITIAL_ROWS = 4"
definition BLOCKS_PER_ROW :: nat where "BLOCKS_PER_ROW = GRID_COLS"
definition ROWS_PER_LEVEL :: nat where "ROWS_PER_LEVEL = 5"
definition BLOCKS_PER_LEVEL :: int where "BLOCKS_PER_LEVEL = int (BLOCKS_PER_ROW * ROWS_PER_LEVEL)"

section \<open>Helpers\<close>

text \<open>
  Randomness is an input of the model. A \<open>draw\<close> is what one block creation consumes: the
  string returned by \<open>generateId()\<close> and the number returned by \<open>Math.random()\<close> inside
  \<open>getRandomValue()\<close>. \<open>generateTarget\<close> takes the number returned by its own call of
  \<open>Math.random()\<close>.
\<close>

type_synonym draw = "string \<times> rat"

definition getRandomValue :: "rat \<Rightarrow> int" where
  "getRandomValue u = \<lfloor>u * 10\<rfloor> + 1"

definition generateTarget :: "rat \<Rightarrow> int \<Rightarrow> int" where
  "generateTarget u lv = \<lfloor>u * of_int (10 + lv div 3)\<rfloor> + 5"

section \<open>initGame\<close>

definition initialBlocks :: "(nat \<Rightarrow> draw) \<Rightarrow> block list" where
  "initialBlocks gen =
     concat (map (\<lambda>r. map (\<lambda>c.
        \<lparr> id_b = fst (gen (r * GRID_COLS + c)),
          value_b = getRandomValue (snd (gen (r * GRID_COLS + c))),
          row = GRID_ROWS - 1 - int r,
          col = int c,
          isNew = None \<rparr>) [0..<GRID_COLS]) [0..<INITIAL_ROWS])"

definition initGame :: "(nat \<Rightarrow> draw) \<Rightarrow> rat \<Rightarrow> GameMode \<Rightarrow> app_state \<Rightarrow> app_state" where
  "initGame gen u selectedMode s =
     s\<lparr> blocks := initialBlocks gen,
        targetSum := generateTarget u (startLevel s),
        score := 0,
        selectedIds := [],
        gameOver := False,
        mode := selectedMode,
        level := startLevel s,
        isPaused := False,
        gameStarted := True,
        scrollProgress := 0,
        blocksClearedInLevel := 0,
        showLevelUp := False \<rparr>"

section \<open>addNewRow\<close>

definition newRow :: "(nat \<Rightarrow> draw) \<Rightarrow> block list" where
  "newRow gen =
     map (\<lambda>c. \<lparr> id_b = fst (gen c),
                value_b = getRandomValue (snd (gen c)),
                row = GRID_ROWS - 1,
                col = int c,
                isNew = Some True \<rparr>) [0..<GRID_COLS]"

text \<open>
  The function passed to \<open>setBlocks\<close>. It returns the next block list together with the
  value it leaves in the local variable \<open>isGameOver\<close> of the enclosing call.
\<close>

definition setBlocksUpdater :: "(nat \<Rightarrow> draw) \<Rightarrow> block list \<Rightarrow> block list \<times> bool" where
  "setBlocksUpdater gen prev =
     (let willBeGameOver = list_ex (\<lambda>b. row b \<le> 0) prev
      in if willBeGameOver then (prev, True)
         else (map (\<lambda>b. b\<lparr> row := row b - 1 \<rparr>) prev @ newRow gen, False))"

text \<open>
  \<open>addNewRow\<close> is only called from inside the updater of \<open>setScrollProgress\<close>, so the
  function it passes to \<open>setBlocks\<close> is queued and runs after \<open>addNewRow\<close> has returned.
  The local \<open>isGameOver\<close> is assigned only inside that function: the test
  \<open>if (isGameOver)\<close> reads its initial value \<open>false\<close> and \<open>setGameOver(true)\<close> is not
  reached. \<open>setScrollProgress(0)\<close> runs in either case, and the queued function then
  yields the blocks.
\<close>

definition addNewRow :: "(nat \<Rightarrow> draw) \<Rightarrow> app_state \<Rightarrow> app_state" where
  "addNewRow gen s =
     (let isGameOver = False;
          s1 = (if isGameOver then s\<lparr> gameOver := True \<rparr> else s)
      in s1\<lparr> blocks := fst (setBlocksUpdater gen (blocks s)), scrollProgress := 0 \<rparr>)"

section \<open>toggleBlock\<close>

definition toggleBlock :: "string \<Rightarrow> app_state \<Rightarrow> app_state" where
  "toggleBlock i s =
     (if gameOver s \<or> isPaused s then s
      else s\<lparr> selectedIds :=
                (if i \<in> set (selectedIds s)
                 then filter (\<lambda>j. j \<noteq> i) (selectedIds s)
                 else selectedIds s @ [i]) \<rparr>)"

section \<open>The sum check that runs when the selection changes\<close>

text \<open>
  The gravity pass of the success branch: for each column in turn, the blocks of the column
  are sorted from bottom to top (a stable sort, descending in \<open>row\<close>) and the block at
  index \<open>idx\<close> is pushed with row \<open>GRID_ROWS - 1 - idx\<close>.
\<close>

definition colBlocks :: "nat \<Rightarrow> block list \<Rightarrow> block list" where
  "colBlocks c remaining = sort_key (\<lambda>b. - row b) (filter (\<lambda>b. col b = int c) remaining)"

definition gravityCol :: "nat \<Rightarrow> block list \<Rightarrow> block list" where
  "gravityCol c remaining =
     map (\<lambda>(idx, b). b\<lparr> row := GRID_ROWS - 1 - int idx \<rparr>) (enumerate 0 (colBlocks c remaining))"

definition gravity :: "block list \<Rightarrow> block list" where
  "gravity remaining = concat (map (\<lambda>c. gravityCol c remaining) [0..<GRID_COLS])"

definition currentSum :: "app_state \<Rightarrow> int" where
  "currentSum s =
     foldl (\<lambda>sum b. sum + value_b b) 0
       (filter (\<lambda>b. id_b b \<in> set (selectedIds s)) (blocks s))"

definition sumCheck :: "rat \<Rightarrow> app_state \<Rightarrow> app_state \<times> effect list" where
  "sumCheck u s =
     (if length (selectedIds s) = 0 then (s, [])
      else if currentSum s = targetSum s then
        (let points = int (length (selectedIds s)) * 10 * level s;
             remaining = filter (\<lambda>b. id_b b \<notin> set (selectedIds s)) (blocks s);
             newClearedCount = blocksClearedInLevel s + int (length (selectedIds s))
         in if newClearedCount \<ge> BLOCKS_PER_LEVEL
            then (s\<lparr> score := score s + points,
                     blocks := gravity remaining,
                     selectedIds := [],
                     targetSum := generateTarget u (level s),
                     level := level s + 1,
                     blocksClearedInLevel := newClearedCount - BLOCKS_PER_LEVEL,
                     showLevelUp := True \<rparr>,
                  [HideLevelUpAfter 2000, Confetti])
            else (s\<lparr> score := score s + points,
                     blocks := gravity remaining,
                     selectedIds := [],
                     targetSum := generateTarget u (level s),
                     blocksClearedInLevel := newClearedCount \<rparr>,
                  [Confetti]))
      else if currentSum s > targetSum s then (s\<lparr> selectedIds := [] \<rparr>, [])
      else (s, []))"

section \<open>Continuous scrolling\<close>

definition speed :: "int \<Rightarrow> rat" where
  "speed lv = 1 / 2 + of_int lv * (15 / 100)"

text \<open>
  One firing of the interval timer. The timer only exists while the game is started, not
  over and not paused. The flag of the result says whether \<open>addNewRow\<close> was called.
\<close>

definition tick :: "(nat \<Rightarrow> draw) \<Rightarrow> app_state \<Rightarrow> app_state \<times> bool" where
  "tick gen s =
     (if gameStarted s \<and> \<not> gameOver s \<and> \<not> isPaused s then
        (if scrollProgress s + speed (level s) \<ge> 100
         then ((addNewRow gen s)\<lparr> scrollProgress := 0 \<rparr>, True)
         else (s\<lparr> scrollProgress := scrollProgress s + speed (level s) \<rparr>, False))
      else (s, False))"

text \<open>A run of ticks, one draw function per tick, counting the calls of \<open>addNewRow\<close>.\<close>

fun runTicks :: "(nat \<Rightarrow> draw) list \<Rightarrow> app_state \<Rightarrow> app_state \<times> nat" where
  "runTicks [] s = (s, 0)"
| "runTicks (g # gs) s =
     (case tick g s of (s', spawned) \<Rightarrow>
        (case runTicks gs s' of (s'', n) \<Rightarrow> (s'', n + (if spawned then 1 else 0))))"

text \<open>The condition under which the interval timer runs.\<close>

definition active :: "app_state \<Rightarrow> bool" where
  "active s \<longleftrightarrow> gameStarted s \<and> \<not> gameOver s \<and> \<not> isPaused s"

section \<open>Reachable states\<close>

text \<open>
  The states the component can be in once a game has been started: \<open>initGame\<close> from any
  state (the menu buttons and the retry button), then timer ticks, clicks on blocks, runs of
  the sum check, the pause and continue buttons, and the return to the menu.
\<close>

inductive reachable :: "app_state \<Rightarrow> bool" where
  start: "reachable (initGame gen u selectedMode s)"
| ticked: "reachable s \<Longrightarrow> reachable (fst (tick gen s))"
| toggled: "reachable s \<Longrightarrow> reachable (toggleBlock i s)"
| checked: "reachable s \<Longrightarrow> reachable (fst (sumCheck u s))"
| paused: "reachable s \<Longrightarrow> reachable (s\<lparr> isPaused := p \<rparr>)"
| menu: "reachable s \<Longrightarrow> reachable (s\<lparr> gameStarted := False \<rparr>)"

definition uniqueCells :: "block list \<Rightarrow> bool" where
  "uniqueCells bs = distinct (map (\<lambda>b. (row b, col b)) bs)"

definition rowsInGrid :: "block list \<Rightarrow> bool" where
  "rowsInGrid bs = list_all (\<lambda>b. row b \<le> GRID_ROWS - 1) bs"

section \<open>Example states\<close>

text \<open>The values the state hooks start with, and shorthands for concrete inputs.\<close>

definition idle :: app_state where
  "idle = \<lparr> blocks = [], targetSum = 10, score = 0, selectedIds = [], gameOver = False,
            mode = Classic, isPaused = False, level = 1, gameStarted = False, startLevel = 1,
            scrollProgress = 0, blocksClearedInLevel = 0, showLevelUp = False \<rparr>"

definition mkBlock :: "string \<Rightarrow> int \<Rightarrow> int \<Rightarrow> int \<Rightarrow> block" where
  "mkBlock i v r c = \<lparr> id_b = i, value_b = v, row = r, col = c, isNew = None \<rparr>"

definition zeroGen :: "nat \<Rightarrow> draw" where
  "zeroGen k = (''n'', 0)"

definition ghostState :: app_state where
  "ghostState = idle\<lparr> gameStarted := True \<rparr>"

definition topState :: app_state where
  "topState = idle\<lparr> blocks := [mkBlock ''a'' 3 0 2], gameStarted := True, scrollProgress := 50 \<rparr>"

definition brimState :: app_state where
  "brimState = idle\<lparr> blocks := [mkBlock ''a'' 3 0 2], gameStarted := True,
                      scrollProgress := 199 / 2 \<rparr>"

definition staleState :: app_state where
  "staleState = idle\<lparr> blocks := [mkBlock ''a'' 7 9 0], selectedIds := [''gone''],
                      targetSum := 7, gameStarted := True \<rparr>"

definition pairState :: "int \<Rightarrow> app_state" where
  "pairState t = idle\<lparr> blocks := [mkBlock ''a'' 3 9 0, mkBlock ''b'' 4 9 1, mkBlock ''c'' 2 8 0],
                       selectedIds := [''a'', ''b''], targetSum := t, gameStarted := True \<rparr>"

definition manyOnes :: "block list" where
  "manyOnes = map (\<lambda>k. mkBlock (replicate (Suc k) CHR ''a'') 1 (9 - int (k div 6)) (int (k mod 6)))
                  [0..<31]"

definition doubleState :: app_state where
  "doubleState = idle\<lparr> blocks := manyOnes, selectedIds := map id_b manyOnes, targetSum := 31,
                        level := 63, blocksClearedInLevel := 29, gameStarted := True \<rparr>"

definition stackState :: app_state where
  "stackState = idle\<lparr> blocks := [mkBlock ''a'' 3 9 0, mkBlock ''b'' 4 9 1,
                                   mkBlock ''c'' 2 8 0, mkBlock ''d'' 5 7 0],
                       selectedIds := [''a'', ''b''], targetSum := 7, gameStarted := True \<rparr>"

definition playedState :: app_state where
  "playedState = fst (sumCheck 0 (toggleBlock ''n'' (fst (tick zeroGen (initGame zeroGen 0 Classic idle)))))"

definition freshGame :: app_state where
  "freshGame = initGame zeroGen 0 Classic idle"

section \<open>Spawning a row\<close>

lemma length_newRow: "length (newRow gen) = GRID_COLS"
  by (simp add: newRow_def)

lemmas addNewRow_simps = addNewRow_def setBlocksUpdater_def Let_def

lemma addNewRow_keeps:
  "level (addNewRow g s) = level s \<and> gameStarted (addNewRow g s) = gameStarted s
   \<and> isPaused (addNewRow g s) = isPaused s \<and> gameOver (addNewRow g s) = gameOver s
   \<and> scrollProgress (addNewRow g s) = 0"
  by (simp add: addNewRow_simps)

text \<open>
  C2. The claim holds for the blocks but not for the flag. At a state with a block in row 0
  \<open>addNewRow\<close> leaves the blocks as they were and \<open>gameOver\<close> false, also when it is
  called by the timer tick that finds the progress at the threshold.
\<close>

theorem addNewRow_game_over_flag_not_set:
  "row (hd (blocks brimState)) \<le> 0
   \<and> \<not> gameOver brimState
   \<and> blocks (addNewRow zeroGen brimState) = blocks brimState
   \<and> \<not> gameOver (addNewRow zeroGen brimState)
   \<and> snd (tick zeroGen brimState)
   \<and> blocks (fst (tick zeroGen brimState)) = blocks brimState
   \<and> \<not> gameOver (fst (tick zeroGen brimState))"
  by (simp add: brimState_def idle_def mkBlock_def addNewRow_simps tick_def speed_def)

text \<open>
  C7, as stated, fails: when some block has \<open>row \<le> 0\<close>, \<open>addNewRow\<close> still runs
  \<open>setScrollProgress(0)\<close>, so a scroll progress of 50 becomes 0.
\<close>

theorem addNewRow_game_over_scroll_counterexample:
  "row (hd (blocks topState)) \<le> 0
   \<and> blocks (addNewRow zeroGen topState) = blocks topState
   \<and> scrollProgress topState = 50
   \<and> scrollProgress (addNewRow zeroGen topState) = 0"
  by (simp add: topState_def idle_def mkBlock_def addNewRow_simps)

text \<open>
  C7, amended. In every state in which some block has \<open>row \<le> 0\<close>, \<open>addNewRow\<close> leaves
  \<open>blocks\<close> unchanged and resets \<open>scrollProgress\<close> to 0.
\<close>

theorem addNewRow_game_over_frame:
  assumes "\<exists>b\<in>set (blocks s). row b \<le> 0"
  shows "blocks (addNewRow gen s) = blocks s \<and> scrollProgress (addNewRow gen s) = 0"
  using assms by (simp add: addNewRow_simps list_ex_iff)

theorem addNewRow_game_over_frame_witness:
  "(\<exists>b\<in>set (blocks topState). row b \<le> 0)
   \<and> blocks (addNewRow zeroGen topState) = [mkBlock ''a'' 3 0 2]
   \<and> scrollProgress (addNewRow zeroGen topState) = 0"
proof -
  have h: "\<exists>b\<in>set (blocks topState). row b \<le> 0"
    by (simp add: topState_def idle_def mkBlock_def)
  have b: "blocks topState = [mkBlock ''a'' 3 0 2]"
    by (simp add: topState_def idle_def)
  from h addNewRow_game_over_frame [OF h, of zeroGen] show ?thesis by (simp add: b)
qed

section \<open>Toggling a block\<close>

text \<open>
  C6, as stated, fails: \<open>toggleBlock\<close> never looks at \<open>blocks\<close>, so an id that matches
  no block is appended to the selection.
\<close>

theorem toggleBlock_nonexistent_counterexample:
  "\<not> gameOver ghostState \<and> \<not> isPaused ghostState \<and> blocks ghostState = []
   \<and> selectedIds ghostState = []
   \<and> selectedIds (toggleBlock ''ghost'' ghostState) = [''ghost'']
   \<and> toggleBlock ''ghost'' ghostState \<noteq> ghostState"
proof -
  have sel: "selectedIds (toggleBlock ''ghost'' ghostState) = [''ghost'']"
    by (simp add: ghostState_def idle_def toggleBlock_def)
  have "selectedIds ghostState = []"
    by (simp add: ghostState_def idle_def)
  with sel have "toggleBlock ''ghost'' ghostState \<noteq> ghostState" by auto
  with sel show ?thesis by (simp add: ghostState_def idle_def)
qed

text \<open>
  C6, amended. In every state that is neither over nor paused, toggling an id that matches
  no block changes \<open>selectedIds\<close> and nothing else: the id is appended if it was absent
  and removed if it was present.
\<close>

theorem toggleBlock_nonexistent_flips:
  assumes "\<not> gameOver s" and "\<not> isPaused s"
    and "\<forall>b\<in>set (blocks s). id_b b \<noteq> i"
  shows "toggleBlock i s =
           s\<lparr> selectedIds := (if i \<in> set (selectedIds s)
                               then filter (\<lambda>j. j \<noteq> i) (selectedIds s)
                               else selectedIds s @ [i]) \<rparr>
       \<and> (i \<in> set (selectedIds (toggleBlock i s)) \<longleftrightarrow> i \<notin> set (selectedIds s))
       \<and> selectedIds (toggleBlock i s) \<noteq> selectedIds s"
proof -
  have eq: "toggleBlock i s =
           s\<lparr> selectedIds := (if i \<in> set (selectedIds s)
                               then filter (\<lambda>j. j \<noteq> i) (selectedIds s)
                               else selectedIds s @ [i]) \<rparr>"
    using assms by (simp add: toggleBlock_def)
  have flip: "i \<in> set (selectedIds (toggleBlock i s)) \<longleftrightarrow> i \<notin> set (selectedIds s)"
    by (simp add: eq)
  then have "selectedIds (toggleBlock i s) \<noteq> selectedIds s"
    by metis
  with eq flip show ?thesis by blast
qed

theorem toggleBlock_nonexistent_flips_witness:
  "\<not> gameOver ghostState \<and> \<not> isPaused ghostState
   \<and> ''ghost'' \<notin> id_b ` set (blocks ghostState)
   \<and> toggleBlock ''ghost'' ghostState = ghostState\<lparr> selectedIds := [''ghost''] \<rparr>"
proof -
  have h1: "\<not> gameOver ghostState" and h2: "\<not> isPaused ghostState"
    and h3: "\<forall>b\<in>set (blocks ghostState). id_b b \<noteq> ''ghost''"
    by (simp_all add: ghostState_def idle_def)
  have "selectedIds ghostState = []" by (simp add: ghostState_def idle_def)
  with toggleBlock_nonexistent_flips [OF h1 h2 h3] h1 h2 h3 show ?thesis by auto
qed

section \<open>The sum check\<close>

lemma currentSum_sum_list:
  "currentSum s = sum_list (map value_b (filter (\<lambda>b. id_b b \<in> set (selectedIds s)) (blocks s)))"
proof -
  have "foldl (\<lambda>sum b. sum + value_b b) a xs = a + sum_list (map value_b xs)"
    for a :: int and xs :: "block list"
    by (induction xs arbitrary: a) simp_all
  then show ?thesis by (simp add: currentSum_def)
qed

lemma generateTarget_ge_5: "0 \<le> u \<Longrightarrow> 0 \<le> lv \<Longrightarrow> 5 \<le> generateTarget u lv"
proof -
  assume u: "0 \<le> u" and lv: "0 \<le> lv"
  have "0 \<le> 10 + lv div 3" using lv by simp
  then have "(0::rat) \<le> of_int (10 + lv div 3)" by (simp only: of_int_0_le_iff)
  with u have "0 \<le> u * of_int (10 + lv div 3)" by (rule mult_nonneg_nonneg)
  then have "0 \<le> \<lfloor>u * of_int (10 + lv div 3)\<rfloor>" by simp
  then show ?thesis by (simp add: generateTarget_def)
qed

text \<open>
  C10. When the target is at least 5 and no selected id matches a block, the sum over the
  selected blocks is 0, so the sum check takes neither the success branch nor the
  over-target branch: the state is unchanged and no effect is emitted. Every target made by
  \<open>generateTarget\<close> from a random number \<open>\<ge> 0\<close> at a level \<open>\<ge> 0\<close> is at least 5.
\<close>

theorem stale_selection_never_clears:
  assumes "5 \<le> targetSum s" and "selectedIds s \<noteq> []"
    and "\<forall>i\<in>set (selectedIds s). \<forall>b\<in>set (blocks s). id_b b \<noteq> i"
  shows "currentSum s = 0 \<and> sumCheck u s = (s, [])
       \<and> (0 \<le> u' \<and> 0 \<le> lv \<longrightarrow> 5 \<le> generateTarget u' lv)"
proof -
  have "filter (\<lambda>b. id_b b \<in> set (selectedIds s)) (blocks s) = []"
    using assms(3) by (auto simp: filter_empty_conv)
  then have z: "currentSum s = 0" by (simp add: currentSum_def)
  with assms(1,2) have "sumCheck u s = (s, [])" by (simp add: sumCheck_def)
  with z show ?thesis by (simp add: generateTarget_ge_5)
qed

theorem stale_selection_never_clears_witness:
  "5 \<le> targetSum staleState \<and> selectedIds staleState \<noteq> []
   \<and> set (selectedIds staleState) \<inter> id_b ` set (blocks staleState) = {}
   \<and> currentSum staleState = 0 \<and> sumCheck 0 staleState = (staleState, [])
   \<and> 5 \<le> generateTarget (1/2) 1"
proof -
  have h1: "5 \<le> targetSum staleState" and h2: "selectedIds staleState \<noteq> []"
    and h3: "\<forall>i\<in>set (selectedIds staleState). \<forall>b\<in>set (blocks staleState). id_b b \<noteq> i"
    by (simp_all add: staleState_def idle_def mkBlock_def)
  have h4: "(0::rat) \<le> 1/2" and h5: "(0::int) \<le> 1" by simp_all
  from stale_selection_never_clears [OF h1 h2 h3, of 0 "1/2" 1] h1 h2 h3 h4 h5
  show ?thesis by auto
qed

text \<open>
  C1. In a state that is neither over nor paused and has a non-empty selection, with
  \<open>currentSum\<close> the sum of the values of the blocks whose id is selected: the success branch
  (it alone emits the confetti effect, adds the points, removes the selected blocks, empties
  the selection and draws a new target) runs exactly when \<open>currentSum = targetSum\<close>; a
  larger sum empties the selection and changes nothing else; a smaller sum changes nothing.
\<close>

theorem sum_resolution:
  assumes "\<not> gameOver s" and "\<not> isPaused s" and "selectedIds s \<noteq> []"
  shows "currentSum s = sum_list (map value_b (filter (\<lambda>b. id_b b \<in> set (selectedIds s)) (blocks s)))
       \<and> (Confetti \<in> set (snd (sumCheck u s)) \<longleftrightarrow> currentSum s = targetSum s)
       \<and> (currentSum s = targetSum s \<longrightarrow>
             score (fst (sumCheck u s)) = score s + int (length (selectedIds s)) * 10 * level s
           \<and> blocks (fst (sumCheck u s)) =
               gravity (filter (\<lambda>b. id_b b \<notin> set (selectedIds s)) (blocks s))
           \<and> selectedIds (fst (sumCheck u s)) = []
           \<and> targetSum (fst (sumCheck u s)) = generateTarget u (level s))
       \<and> (currentSum s > targetSum s \<longrightarrow>
             sumCheck u s = (s\<lparr> selectedIds := [] \<rparr>, [])
           \<and> selectedIds (fst (sumCheck u s)) = []
           \<and> blocks (fst (sumCheck u s)) = blocks s
           \<and> score (fst (sumCheck u s)) = score s
           \<and> targetSum (fst (sumCheck u s)) = targetSum s
           \<and> level (fst (sumCheck u s)) = level s
           \<and> blocksClearedInLevel (fst (sumCheck u s)) = blocksClearedInLevel s)
       \<and> (currentSum s < targetSum s \<longrightarrow> sumCheck u s = (s, []))"
proof -
  have fires: "Confetti \<in> set (snd (sumCheck u s)) \<longleftrightarrow> currentSum s = targetSum s"
    using assms(3) by (simp add: sumCheck_def Let_def)
  have clear: "currentSum s = targetSum s \<Longrightarrow>
             score (fst (sumCheck u s)) = score s + int (length (selectedIds s)) * 10 * level s
           \<and> blocks (fst (sumCheck u s)) =
               gravity (filter (\<lambda>b. id_b b \<notin> set (selectedIds s)) (blocks s))
           \<and> selectedIds (fst (sumCheck u s)) = []
           \<and> targetSum (fst (sumCheck u s)) = generateTarget u (level s)"
    using assms(3) by (simp add: sumCheck_def Let_def)
  have over: "currentSum s > targetSum s \<Longrightarrow> sumCheck u s = (s\<lparr> selectedIds := [] \<rparr>, [])"
    using assms(3) by (simp add: sumCheck_def)
  have under: "currentSum s < targetSum s \<Longrightarrow> sumCheck u s = (s, [])"
    using assms(3) by (simp add: sumCheck_def)
  from fires clear over under show ?thesis
    by (simp add: currentSum_sum_list)
qed

theorem sum_resolution_witness:
  "\<not> gameOver (pairState 7) \<and> selectedIds (pairState 7) \<noteq> [] \<and> currentSum (pairState 7) = 7
   \<and> Confetti \<in> set (snd (sumCheck 0 (pairState 7)))
   \<and> score (fst (sumCheck 0 (pairState 7))) = 20
   \<and> blocks (fst (sumCheck 0 (pairState 7))) = [mkBlock ''c'' 2 9 0]
   \<and> sumCheck 0 (pairState 5) = ((pairState 5)\<lparr> selectedIds := [] \<rparr>, [])
   \<and> sumCheck 0 (pairState 10) = (pairState 10, [])"
proof -
  have h: "\<not> gameOver (pairState t)" "\<not> isPaused (pairState t)" "selectedIds (pairState t) \<noteq> []"
    for t by (simp_all add: pairState_def idle_def)
  have c: "currentSum (pairState t) = 7" for t
    by (simp add: currentSum_def pairState_def idle_def mkBlock_def)
  have g: "gravity (filter (\<lambda>b. id_b b \<notin> set (selectedIds (pairState 7))) (blocks (pairState 7)))
           = [mkBlock ''c'' 2 9 0]"
    by (simp add: gravity_def gravityCol_def colBlocks_def pairState_def idle_def mkBlock_def GRID_COLS_def
        GRID_ROWS_def upt_conv_Cons enumerate_eq_zip)
  have t: "targetSum (pairState t) = t" "score (pairState t) = 0" "level (pairState t) = 1"
    "length (selectedIds (pairState t)) = 2" for t
    by (simp_all add: pairState_def idle_def)
  from sum_resolution [OF h, of 7 0] sum_resolution [OF h, of 5 0] sum_resolution [OF h, of 10 0]
  show ?thesis by (simp add: h c g t)
qed


section \<open>Level progression\<close>

lemma removed_count:
  assumes "distinct (map id_b bs)" and "distinct sel" and "set sel \<subseteq> id_b ` set bs"
  shows "length (filter (\<lambda>b. id_b b \<in> set sel) bs) = length sel"
proof -
  let ?xs = "map id_b (filter (\<lambda>b. id_b b \<in> set sel) bs)"
  have "?xs = filter (\<lambda>i. i \<in> set sel) (map id_b bs)"
    by (simp add: filter_map comp_def)
  with assms(1) have d: "distinct ?xs" by simp
  have "set ?xs = set sel" using assms(3) by auto
  then have "card (set ?xs) = card (set sel)" by simp
  with d assms(2) have "length ?xs = length sel"
    by (simp only: distinct_card)
  then show ?thesis by simp
qed

text \<open>
  C4, as stated, fails in its last part: the level test is a single \<open>if\<close>, so one clear
  raises the level at most once. From an accumulator of 29, clearing 31 blocks reaches 60,
  twice \<open>BLOCKS_PER_LEVEL\<close>; the level goes up by one and the accumulator is left at 30.
\<close>

theorem level_progression_counterexample:
  "selectedIds doubleState \<noteq> [] \<and> currentSum doubleState = targetSum doubleState
   \<and> blocksClearedInLevel doubleState = 29
   \<and> blocksClearedInLevel doubleState + int (length (selectedIds doubleState)) = 2 * BLOCKS_PER_LEVEL
   \<and> level (fst (sumCheck 0 doubleState)) = level doubleState + 1
   \<and> level (fst (sumCheck 0 doubleState)) \<noteq> level doubleState + 2
   \<and> blocksClearedInLevel (fst (sumCheck 0 doubleState)) = BLOCKS_PER_LEVEL"
  by code_simp

text \<open>
  C4, amended. For a clear event that removes \<open>n\<close> blocks (ids of blocks distinct, the
  selected ids distinct and all present), the accumulator advances by \<open>n\<close>: if
  \<open>blocksClearedInLevel + n\<close> reaches \<open>BLOCKS_PER_LEVEL = GRID_COLS * ROWS_PER_LEVEL = 30\<close>, the
  level goes up by exactly one and the accumulator keeps the count minus 30; otherwise the
  level is unchanged and the accumulator is the new count.
\<close>

theorem level_progression:
  assumes "selectedIds s \<noteq> []" and "currentSum s = targetSum s"
    and "distinct (map id_b (blocks s))" and "distinct (selectedIds s)"
    and "set (selectedIds s) \<subseteq> id_b ` set (blocks s)"
    and "n = int (length (filter (\<lambda>b. id_b b \<in> set (selectedIds s)) (blocks s)))"
  shows "(blocksClearedInLevel s + n \<ge> BLOCKS_PER_LEVEL \<longrightarrow>
            level (fst (sumCheck u s)) = level s + 1
          \<and> blocksClearedInLevel (fst (sumCheck u s)) = blocksClearedInLevel s + n - BLOCKS_PER_LEVEL)
       \<and> (blocksClearedInLevel s + n < BLOCKS_PER_LEVEL \<longrightarrow>
            level (fst (sumCheck u s)) = level s
          \<and> blocksClearedInLevel (fst (sumCheck u s)) = blocksClearedInLevel s + n)
       \<and> BLOCKS_PER_LEVEL = int (GRID_COLS * ROWS_PER_LEVEL) \<and> BLOCKS_PER_LEVEL = 30"
proof -
  have n: "n = int (length (selectedIds s))"
    using removed_count [OF assms(3,4,5)] assms(6) by simp
  have c: "BLOCKS_PER_LEVEL = int (GRID_COLS * ROWS_PER_LEVEL) \<and> BLOCKS_PER_LEVEL = 30"
    by (simp add: BLOCKS_PER_LEVEL_def BLOCKS_PER_ROW_def GRID_COLS_def ROWS_PER_LEVEL_def)
  have up: "blocksClearedInLevel s + n \<ge> BLOCKS_PER_LEVEL \<Longrightarrow>
            level (fst (sumCheck u s)) = level s + 1
          \<and> blocksClearedInLevel (fst (sumCheck u s)) = blocksClearedInLevel s + n - BLOCKS_PER_LEVEL"
    using assms(1,2) by (simp add: sumCheck_def Let_def n)
  have stay: "blocksClearedInLevel s + n < BLOCKS_PER_LEVEL \<Longrightarrow>
            level (fst (sumCheck u s)) = level s
          \<and> blocksClearedInLevel (fst (sumCheck u s)) = blocksClearedInLevel s + n"
    using assms(1,2) by (simp add: sumCheck_def Let_def n)
  from up stay c show ?thesis by blast
qed

theorem level_progression_witness:
  "selectedIds (pairState 7) \<noteq> [] \<and> currentSum (pairState 7) = targetSum (pairState 7)
   \<and> distinct (map id_b (blocks (pairState 7))) \<and> distinct (selectedIds (pairState 7))
   \<and> set (selectedIds (pairState 7)) \<subseteq> id_b ` set (blocks (pairState 7))
   \<and> length (filter (\<lambda>b. id_b b \<in> set (selectedIds (pairState 7))) (blocks (pairState 7))) = 2
   \<and> level (fst (sumCheck 0 (pairState 7))) = 1
   \<and> blocksClearedInLevel (fst (sumCheck 0 (pairState 7))) = 2
   \<and> level (fst (sumCheck 0 ((pairState 7)\<lparr> blocksClearedInLevel := 29 \<rparr>))) = 2
   \<and> blocksClearedInLevel (fst (sumCheck 0 ((pairState 7)\<lparr> blocksClearedInLevel := 29 \<rparr>))) = 1"
proof -
  have h: "selectedIds ((pairState 7)\<lparr> blocksClearedInLevel := a \<rparr>) \<noteq> []"
    "currentSum ((pairState 7)\<lparr> blocksClearedInLevel := a \<rparr>)
       = targetSum ((pairState 7)\<lparr> blocksClearedInLevel := a \<rparr>)"
    "distinct (map id_b (blocks ((pairState 7)\<lparr> blocksClearedInLevel := a \<rparr>)))"
    "distinct (selectedIds ((pairState 7)\<lparr> blocksClearedInLevel := a \<rparr>))"
    "set (selectedIds ((pairState 7)\<lparr> blocksClearedInLevel := a \<rparr>))
       \<subseteq> id_b ` set (blocks ((pairState 7)\<lparr> blocksClearedInLevel := a \<rparr>))"
    "2 = int (length (filter (\<lambda>b. id_b b \<in> set (selectedIds ((pairState 7)\<lparr> blocksClearedInLevel := a \<rparr>)))
                 (blocks ((pairState 7)\<lparr> blocksClearedInLevel := a \<rparr>))))" for a
    by (simp_all add: pairState_def idle_def mkBlock_def currentSum_def)
  have e: "(pairState 7)\<lparr> blocksClearedInLevel := 0 \<rparr> = pairState 7"
    by (simp add: pairState_def idle_def)
  have v: "level (pairState 7) = 1" "blocksClearedInLevel (pairState 7) = 0"
    by (simp_all add: pairState_def idle_def)
  from level_progression [OF h, of 0 0] level_progression [OF h, of 29 0] h [of 0]
  show ?thesis by (simp add: e v)
qed

section \<open>Gravity\<close>

lemma length_colBlocks: "length (colBlocks c bs) = length (filter (\<lambda>b. col b = int c) bs)"
  by (simp add: colBlocks_def)

lemma set_colBlocks: "set (colBlocks c bs) = {b \<in> set bs. col b = int c}"
  by (simp add: colBlocks_def)

lemma sorted_colBlocks: "sorted (map (\<lambda>b. - row b) (colBlocks c bs))"
  by (simp add: colBlocks_def sorted_sort_key)

lemma length_gravityCol: "length (gravityCol c bs) = length (colBlocks c bs)"
  by (simp add: gravityCol_def)

lemma nth_gravityCol:
  "k < length (colBlocks c bs) \<Longrightarrow>
     gravityCol c bs ! k = (colBlocks c bs ! k)\<lparr> row := GRID_ROWS - 1 - int k \<rparr>"
  by (simp add: gravityCol_def nth_enumerate_eq)

lemma in_gravityCol_iff:
  "x \<in> set (gravityCol c bs) \<longleftrightarrow>
     (\<exists>k<length (colBlocks c bs). x = (colBlocks c bs ! k)\<lparr> row := GRID_ROWS - 1 - int k \<rparr>)"
proof -
  have "x \<in> set (gravityCol c bs) \<longleftrightarrow> (\<exists>k<length (gravityCol c bs). gravityCol c bs ! k = x)"
    by (simp only: in_set_conv_nth)
  also have "\<dots> \<longleftrightarrow> (\<exists>k<length (colBlocks c bs). x = (colBlocks c bs ! k)\<lparr> row := GRID_ROWS - 1 - int k \<rparr>)"
    by (auto simp: length_gravityCol nth_gravityCol)
  finally show ?thesis .
qed

lemma col_gravityCol: "x \<in> set (gravityCol c bs) \<Longrightarrow> col x = int c"
proof -
  assume "x \<in> set (gravityCol c bs)"
  then obtain k where k: "k < length (colBlocks c bs)"
    and x: "x = (colBlocks c bs ! k)\<lparr> row := GRID_ROWS - 1 - int k \<rparr>"
    by (auto simp: in_gravityCol_iff)
  from k have "colBlocks c bs ! k \<in> set (colBlocks c bs)" by simp
  then have "col (colBlocks c bs ! k) = int c" by (simp add: set_colBlocks)
  with x show ?thesis by simp
qed

lemma map_row_gravityCol:
  "map row (gravityCol c bs) = map (\<lambda>k. GRID_ROWS - 1 - int k) [0..<length (colBlocks c bs)]"
  by (rule nth_equalityI) (simp_all add: length_gravityCol nth_gravityCol)

lemma set_gravity: "set (gravity bs) = (\<Union>c\<in>{0..<GRID_COLS}. set (gravityCol c bs))"
  by (simp add: gravity_def)

lemma concat_pick:
  "concat (map (\<lambda>c'. if c' = c then f c' else []) [0..<n]) = (if c < n then f c else [])"
  by (induction n) auto

lemma filter_col_gravityCol:
  "filter (\<lambda>b. col b = int c) (gravityCol c' bs) = (if c' = c then gravityCol c' bs else [])"
proof (cases "c' = c")
  case True
  then show ?thesis using col_gravityCol [of _ c' bs] by (simp add: filter_id_conv)
next
  case False
  then show ?thesis using col_gravityCol [of _ c' bs] by (auto simp: filter_empty_conv)
qed

lemma filter_col_gravity:
  "filter (\<lambda>b. col b = int c) (gravity bs) = (if c < GRID_COLS then gravityCol c bs else [])"
proof -
  have "filter (\<lambda>b. col b = int c) (gravity bs)
      = concat (map (\<lambda>c'. filter (\<lambda>b. col b = int c) (gravityCol c' bs)) [0..<GRID_COLS])"
    by (simp add: gravity_def filter_concat comp_def)
  also have "\<dots> = concat (map (\<lambda>c'. if c' = c then gravityCol c' bs else []) [0..<GRID_COLS])"
    by (simp only: filter_col_gravityCol)
  finally show ?thesis by (simp only: concat_pick)
qed

lemma restack_fixed:
  "map (\<lambda>(idx, b). b\<lparr> row := GRID_ROWS - 1 - int idx \<rparr>) (enumerate 0 (gravityCol c bs))
     = gravityCol c bs"
  by (rule nth_equalityI) (simp_all add: length_gravityCol nth_gravityCol nth_enumerate_eq)

lemma colBlocks_gravity:
  assumes "c < GRID_COLS"
  shows "colBlocks c (gravity bs) = gravityCol c bs"
proof -
  have "map (\<lambda>b. - row b) (gravityCol c bs)
      = map (\<lambda>k. int k - (GRID_ROWS - 1)) [0..<length (colBlocks c bs)]"
    using map_row_gravityCol [of c bs]
    by (rule_tac nth_equalityI) (simp_all add: length_gravityCol nth_gravityCol)
  moreover have "sorted (map (\<lambda>k. int k - (GRID_ROWS - 1)) [0..<n])" for n
    by (simp add: sorted_map sorted_wrt_iff_nth_less)
  ultimately have "sorted (map (\<lambda>b. - row b) (gravityCol c bs))" by simp
  then have "sort_key (\<lambda>b. - row b) (gravityCol c bs) = gravityCol c bs"
    by (rule sort_key_id_if_sorted)
  with assms show ?thesis by (simp add: colBlocks_def filter_col_gravity)
qed

lemma gravityCol_gravity:
  "c < GRID_COLS \<Longrightarrow> gravityCol c (gravity bs) = gravityCol c bs"
  using restack_fixed [of c bs] by (simp add: gravityCol_def [of c "gravity bs"] colBlocks_gravity)

text \<open>
  C9. The gravity pass is idempotent: run on its own output it returns that output, so the
  second pass changes the row of no block (nor anything else).
\<close>

theorem gravity_idempotent: "gravity (gravity bs) = gravity bs"
proof -
  have cols: "map (\<lambda>c. gravityCol c (gravity bs)) [0..<GRID_COLS]
      = map (\<lambda>c. gravityCol c bs) [0..<GRID_COLS]"
    by (rule map_cong) (simp_all add: gravityCol_gravity)
  have "gravity (gravity bs) = concat (map (\<lambda>c. gravityCol c (gravity bs)) [0..<GRID_COLS])"
    by (rule gravity_def)
  also have "\<dots> = concat (map (\<lambda>c. gravityCol c bs) [0..<GRID_COLS])"
    by (simp only: cols)
  also have "\<dots> = gravity bs"
    by (rule gravity_def [symmetric])
  finally show ?thesis .
qed

lemma colBlocks_index_order:
  assumes "i < length (colBlocks c bs)" and "j < length (colBlocks c bs)"
    and "row (colBlocks c bs ! j) < row (colBlocks c bs ! i)"
  shows "i < j"
proof (rule ccontr)
  assume "\<not> i < j"
  then have "j \<le> i" by simp
  with sorted_colBlocks [of c bs] assms(1)
  have "map (\<lambda>b. - row b) (colBlocks c bs) ! j \<le> map (\<lambda>b. - row b) (colBlocks c bs) ! i"
    by (simp only: sorted_nth_mono length_map)
  with assms show False by simp
qed

lemma in_gravity_source:
  assumes "x \<in> set (gravity bs)"
  obtains c k where "c < GRID_COLS" and "k < length (colBlocks c bs)"
    and "x = (colBlocks c bs ! k)\<lparr> row := GRID_ROWS - 1 - int k \<rparr>"
  using assms by (auto simp: set_gravity in_gravityCol_iff)

lemma gravity_rows_contiguous:
  assumes "c < GRID_COLS"
  shows "row ` {b \<in> set (gravity bs). col b = int c}
           = {GRID_ROWS - int (length (filter (\<lambda>b. col b = int c) bs)) .. GRID_ROWS - 1}"
proof -
  let ?n = "length (colBlocks c bs)"
  have "{b \<in> set (gravity bs). col b = int c} = set (filter (\<lambda>b. col b = int c) (gravity bs))"
    by auto
  also have "\<dots> = set (gravityCol c bs)"
    using assms by (simp only: filter_col_gravity if_True)
  finally have "row ` {b \<in> set (gravity bs). col b = int c} = set (map row (gravityCol c bs))"
    by simp
  also have "\<dots> = (\<lambda>k. GRID_ROWS - 1 - int k) ` {0..<?n}"
    by (simp only: map_row_gravityCol set_map set_upt)
  also have "\<dots> = {GRID_ROWS - int ?n .. GRID_ROWS - 1}"
  proof (rule set_eqI)
    fix x
    show "x \<in> (\<lambda>k. GRID_ROWS - 1 - int k) ` {0..<?n} \<longleftrightarrow> x \<in> {GRID_ROWS - int ?n .. GRID_ROWS - 1}"
    proof
      assume "x \<in> (\<lambda>k. GRID_ROWS - 1 - int k) ` {0..<?n}"
      then show "x \<in> {GRID_ROWS - int ?n .. GRID_ROWS - 1}" by auto
    next
      assume x: "x \<in> {GRID_ROWS - int ?n .. GRID_ROWS - 1}"
      then have "nat (GRID_ROWS - 1 - x) \<in> {0..<?n}" by auto
      moreover from x have "x = GRID_ROWS - 1 - int (nat (GRID_ROWS - 1 - x))" by auto
      ultimately show "x \<in> (\<lambda>k. GRID_ROWS - 1 - int k) ` {0..<?n}" by (rule rev_image_eqI)
    qed
  qed
  finally show ?thesis by (simp only: length_colBlocks)
qed

lemma gravity_keeps_order:
  assumes "a \<in> set bs" and "b \<in> set bs" and "col a = int c" and "col b = int c"
    and "c < GRID_COLS" and "row b < row a"
  shows "\<exists>a'\<in>set (gravity bs). \<exists>b'\<in>set (gravity bs).
           id_b a' = id_b a \<and> id_b b' = id_b b \<and> row b' < row a'"
proof -
  from assms(1,3) have "a \<in> set (colBlocks c bs)" by (simp add: set_colBlocks)
  then obtain i where i: "i < length (colBlocks c bs)" "colBlocks c bs ! i = a"
    by (auto simp: in_set_conv_nth)
  from assms(2,4) have "b \<in> set (colBlocks c bs)" by (simp add: set_colBlocks)
  then obtain j where j: "j < length (colBlocks c bs)" "colBlocks c bs ! j = b"
    by (auto simp: in_set_conv_nth)
  from i j assms(6) have ij: "i < j" by (simp add: colBlocks_index_order [of i c bs j])
  let ?a = "a\<lparr> row := GRID_ROWS - 1 - int i \<rparr>" and ?b = "b\<lparr> row := GRID_ROWS - 1 - int j \<rparr>"
  from i have "?a \<in> set (gravityCol c bs)" by (auto simp: in_gravityCol_iff)
  with assms(5) have a': "?a \<in> set (gravity bs)" by (auto simp: set_gravity)
  from j have "?b \<in> set (gravityCol c bs)" by (auto simp: in_gravityCol_iff)
  with assms(5) have b': "?b \<in> set (gravity bs)" by (auto simp: set_gravity)
  have "id_b ?a = id_b a \<and> id_b ?b = id_b b \<and> row ?b < row ?a" using ij by simp
  with a' b' show ?thesis by blast
qed

lemma gravity_source_by_id:
  assumes "distinct (map id_b bs)" and "a \<in> set bs"
    and "a' \<in> set (gravity bs)" and "id_b a' = id_b a"
  obtains c k where "k < length (colBlocks c bs)" and "colBlocks c bs ! k = a"
    and "col a = int c" and "row a' = GRID_ROWS - 1 - int k"
proof -
  from assms(3) obtain c k where k: "k < length (colBlocks c bs)"
    and a': "a' = (colBlocks c bs ! k)\<lparr> row := GRID_ROWS - 1 - int k \<rparr>"
    by (rule in_gravity_source)
  let ?x = "colBlocks c bs ! k"
  from k have "?x \<in> set (colBlocks c bs)" by simp
  then have x: "?x \<in> set bs" "col ?x = int c" by (simp_all add: set_colBlocks)
  from a' assms(4) have "id_b ?x = id_b a" by simp
  moreover from assms(1) have "inj_on id_b (set bs)" by (simp add: distinct_map)
  ultimately have "?x = a" using x(1) assms(2) by (simp add: inj_on_eq_iff)
  with k a' x(2) show ?thesis by (intro that [of k c]) simp_all
qed

lemma gravity_order_unique:
  assumes "distinct (map id_b bs)" and "a \<in> set bs" and "b \<in> set bs"
    and "col a = col b" and "row b < row a"
    and "a' \<in> set (gravity bs)" and "b' \<in> set (gravity bs)"
    and "id_b a' = id_b a" and "id_b b' = id_b b"
  shows "row b' < row a'"
proof -
  from assms(1,2,6,8) obtain c i where i: "i < length (colBlocks c bs)" "colBlocks c bs ! i = a"
    "col a = int c" "row a' = GRID_ROWS - 1 - int i"
    by (rule gravity_source_by_id)
  from assms(1,3,7,9) obtain d j where j: "j < length (colBlocks d bs)" "colBlocks d bs ! j = b"
    "col b = int d" "row b' = GRID_ROWS - 1 - int j"
    by (rule gravity_source_by_id)
  from i(3) j(3) assms(4) have "d = c" by simp
  with i j assms(5) have "i < j" by (simp add: colBlocks_index_order [of i c bs j])
  with i(4) j(4) show ?thesis by simp
qed

lemma sumCheck_clear_blocks:
  "selectedIds s \<noteq> [] \<Longrightarrow> currentSum s = targetSum s \<Longrightarrow>
     blocks (fst (sumCheck u s)) = gravity (filter (\<lambda>b. id_b b \<notin> set (selectedIds s)) (blocks s))"
  by (simp add: sumCheck_def Let_def)

text \<open>
  C3. After a clear event, for every column \<open>c\<close> below \<open>GRID_COLS\<close>, the rows of the blocks
  of column \<open>c\<close> are exactly the range that ends at \<open>GRID_ROWS - 1\<close> and has one row per
  surviving block of the column. Two surviving blocks of the column keep their vertical
  order: the one with the larger row before the clear is found after the clear (under the
  same id) with the larger row, and when the ids of the blocks are distinct this holds for
  every block that carries their ids afterwards.
\<close>

theorem gravity_postcondition:
  assumes "selectedIds s \<noteq> []" and "currentSum s = targetSum s" and "c < GRID_COLS"
    and "remaining = filter (\<lambda>b. id_b b \<notin> set (selectedIds s)) (blocks s)"
    and "after = blocks (fst (sumCheck u s))"
  shows "row ` {b \<in> set after. col b = int c}
           = {GRID_ROWS - int (length (filter (\<lambda>b. col b = int c) remaining)) .. GRID_ROWS - 1}
       \<and> (\<forall>a\<in>set remaining. \<forall>b\<in>set remaining.
            col a = int c \<and> col b = int c \<and> row b < row a \<longrightarrow>
              (\<exists>a'\<in>set after. \<exists>b'\<in>set after.
                  id_b a' = id_b a \<and> id_b b' = id_b b \<and> row b' < row a')
            \<and> (distinct (map id_b (blocks s)) \<longrightarrow>
                 (\<forall>a'\<in>set after. \<forall>b'\<in>set after.
                    id_b a' = id_b a \<and> id_b b' = id_b b \<longrightarrow> row b' < row a')))"
proof -
  have after: "after = gravity remaining"
    using assms(1,2,4,5) by (simp add: sumCheck_clear_blocks)
  have rows: "row ` {b \<in> set after. col b = int c}
           = {GRID_ROWS - int (length (filter (\<lambda>b. col b = int c) remaining)) .. GRID_ROWS - 1}"
    unfolding after using assms(3) by (rule gravity_rows_contiguous)
  have ex: "\<exists>a'\<in>set after. \<exists>b'\<in>set after. id_b a' = id_b a \<and> id_b b' = id_b b \<and> row b' < row a'"
    if "a \<in> set remaining" "b \<in> set remaining" "col a = int c" "col b = int c" "row b < row a"
    for a b
    unfolding after using that(1,2,3,4) assms(3) that(5) by (rule gravity_keeps_order)
  have uniq: "row b' < row a'"
    if "distinct (map id_b (blocks s))" "a \<in> set remaining" "b \<in> set remaining"
      "col a = int c" "col b = int c" "row b < row a"
      "a' \<in> set after" "b' \<in> set after" "id_b a' = id_b a" "id_b b' = id_b b"
    for a b a' b'
  proof -
    from that(1) have "distinct (map id_b remaining)"
      by (simp add: assms(4) distinct_map_filter)
    moreover from that(4,5) have "col a = col b" by simp
    ultimately show ?thesis
      using that(2,3,6,7,8,9,10) unfolding after by (intro gravity_order_unique [of remaining a b a' b'])
  qed
  show ?thesis
  proof (intro conjI ballI impI)
    show "row ` {b \<in> set after. col b = int c}
           = {GRID_ROWS - int (length (filter (\<lambda>b. col b = int c) remaining)) .. GRID_ROWS - 1}"
      by (rule rows)
  next
    fix a b
    assume "a \<in> set remaining" "b \<in> set remaining"
      and "col a = int c \<and> col b = int c \<and> row b < row a"
    then show "\<exists>a'\<in>set after. \<exists>b'\<in>set after.
                  id_b a' = id_b a \<and> id_b b' = id_b b \<and> row b' < row a'"
      by (intro ex) simp_all
  next
    fix a b a' b'
    assume "a \<in> set remaining" "b \<in> set remaining"
      and "col a = int c \<and> col b = int c \<and> row b < row a"
      and "distinct (map id_b (blocks s))"
      and "a' \<in> set after" "b' \<in> set after"
      and "id_b a' = id_b a \<and> id_b b' = id_b b"
    then show "row b' < row a'"
      by (intro uniq [of a b a' b']) simp_all
  qed
qed


theorem gravity_postcondition_witness:
  "selectedIds stackState \<noteq> [] \<and> currentSum stackState = targetSum stackState
   \<and> (0::nat) < GRID_COLS
   \<and> filter (\<lambda>b. id_b b \<notin> set (selectedIds stackState)) (blocks stackState)
       = [mkBlock ''c'' 2 8 0, mkBlock ''d'' 5 7 0]
   \<and> distinct (map id_b (blocks stackState))
   \<and> blocks (fst (sumCheck 0 stackState)) = [mkBlock ''c'' 2 9 0, mkBlock ''d'' 5 8 0]
   \<and> row ` {b \<in> set (blocks (fst (sumCheck 0 stackState))). col b = 0} = {8..9}
   \<and> (\<exists>a'\<in>set (blocks (fst (sumCheck 0 stackState))).
        \<exists>b'\<in>set (blocks (fst (sumCheck 0 stackState))).
          id_b a' = ''c'' \<and> id_b b' = ''d'' \<and> row b' < row a')"
proof -
  have h1: "selectedIds stackState \<noteq> []" and h2: "currentSum stackState = targetSum stackState"
    and h3: "(0::nat) < GRID_COLS"
    and d: "distinct (map id_b (blocks stackState))"
    by (simp_all add: stackState_def idle_def mkBlock_def currentSum_def GRID_COLS_def)
  have r: "filter (\<lambda>b. id_b b \<notin> set (selectedIds stackState)) (blocks stackState)
       = [mkBlock ''c'' 2 8 0, mkBlock ''d'' 5 7 0]"
    by (simp add: stackState_def idle_def mkBlock_def)
  have g: "gravity [mkBlock ''c'' 2 8 0, mkBlock ''d'' 5 7 0] = [mkBlock ''c'' 2 9 0, mkBlock ''d'' 5 8 0]"
    by (simp add: gravity_def gravityCol_def colBlocks_def mkBlock_def GRID_COLS_def
        GRID_ROWS_def upt_conv_Cons enumerate_eq_zip)
  have a: "blocks (fst (sumCheck 0 stackState)) = [mkBlock ''c'' 2 9 0, mkBlock ''d'' 5 8 0]"
    using h1 h2 by (simp add: sumCheck_clear_blocks r g)
  note t = gravity_postcondition [OF h1 h2 h3 refl refl, of 0, unfolded r a]
  from t have rows: "row ` {b \<in> set [mkBlock ''c'' 2 9 0, mkBlock ''d'' 5 8 0]. col b = int 0}
      = {GRID_ROWS - int (length (filter (\<lambda>b. col b = int 0) [mkBlock ''c'' 2 8 0, mkBlock ''d'' 5 7 0]))
          .. GRID_ROWS - 1}"
    by (rule conjunct1)
  have rows': "row ` {b \<in> set [mkBlock ''c'' 2 9 0, mkBlock ''d'' 5 8 0]. col b = 0} = {8..9}"
    using rows by (simp add: mkBlock_def GRID_ROWS_def)
  from t have "\<exists>a'\<in>set [mkBlock ''c'' 2 9 0, mkBlock ''d'' 5 8 0].
        \<exists>b'\<in>set [mkBlock ''c'' 2 9 0, mkBlock ''d'' 5 8 0].
          id_b a' = id_b (mkBlock ''c'' 2 8 0) \<and> id_b b' = id_b (mkBlock ''d'' 5 7 0) \<and> row b' < row a'"
    by (simp add: mkBlock_def)
  then have ex: "\<exists>a'\<in>set [mkBlock ''c'' 2 9 0, mkBlock ''d'' 5 8 0].
        \<exists>b'\<in>set [mkBlock ''c'' 2 9 0, mkBlock ''d'' 5 8 0].
          id_b a' = ''c'' \<and> id_b b' = ''d'' \<and> row b' < row a'"
    by (simp add: mkBlock_def)
  from h1 h2 h3 d r rows' ex show ?thesis by (simp only: a) simp
qed

section \<open>Cell uniqueness\<close>

lemma distinct_concat_map:
  assumes "distinct cs" and "\<And>c. c \<in> set cs \<Longrightarrow> distinct (f c)"
    and "\<And>c d. c \<in> set cs \<Longrightarrow> d \<in> set cs \<Longrightarrow> c \<noteq> d \<Longrightarrow> set (f c) \<inter> set (f d) = {}"
  shows "distinct (concat (map f cs))"
  using assms
proof (induction cs)
  case Nil
  then show ?case by simp
next
  case (Cons c cs)
  have "set (f c) \<inter> set (f d) = {}" if "d \<in> set cs" for d
    using Cons.prems(1) Cons.prems(3) [of c d] that by auto
  moreover have "distinct (concat (map f cs))"
    using Cons.prems by (intro Cons.IH) auto
  ultimately show ?case using Cons.prems(2) [of c] by auto
qed

lemma at_most_one_per_key:
  "distinct (map f xs) \<Longrightarrow> length (filter (\<lambda>x. f x = k) xs) \<le> 1"
  by (induction xs) (auto simp: filter_empty_conv image_iff)

lemma cells_gravityCol:
  "map (\<lambda>b. (row b, col b)) (gravityCol c bs)
     = map (\<lambda>k. (GRID_ROWS - 1 - int k, int c)) [0..<length (colBlocks c bs)]"
proof (rule nth_equalityI)
  show "length (map (\<lambda>b. (row b, col b)) (gravityCol c bs))
      = length (map (\<lambda>k. (GRID_ROWS - 1 - int k, int c)) [0..<length (colBlocks c bs)])"
    by (simp add: length_gravityCol)
next
  fix k
  assume "k < length (map (\<lambda>b. (row b, col b)) (gravityCol c bs))"
  then have k: "k < length (colBlocks c bs)" by (simp add: length_gravityCol)
  then have "gravityCol c bs ! k \<in> set (gravityCol c bs)" by (simp add: length_gravityCol)
  then have "col (gravityCol c bs ! k) = int c" by (rule col_gravityCol)
  with k show "map (\<lambda>b. (row b, col b)) (gravityCol c bs) ! k
      = map (\<lambda>k. (GRID_ROWS - 1 - int k, int c)) [0..<length (colBlocks c bs)] ! k"
    by (simp add: length_gravityCol nth_gravityCol)
qed

lemma uniqueCells_gravity: "uniqueCells (gravity bs)"
proof -
  let ?f = "\<lambda>c. map (\<lambda>b. (row b, col b)) (gravityCol c bs)"
  have "distinct (concat (map ?f [0..<GRID_COLS]))"
  proof (rule distinct_concat_map)
    show "distinct [0..<GRID_COLS]" by simp
  next
    fix c
    show "distinct (?f c)"
      by (simp only: cells_gravityCol) (simp add: distinct_map inj_on_def)
  next
    fix c d :: nat
    assume "c \<noteq> d"
    then show "set (?f c) \<inter> set (?f d) = {}"
      by (simp only: cells_gravityCol) auto
  qed
  then show ?thesis by (simp add: uniqueCells_def gravity_def map_concat comp_def)
qed

lemma rowsInGrid_gravity: "rowsInGrid (gravity bs)"
proof -
  have "row x \<le> GRID_ROWS - 1" if "x \<in> set (gravity bs)" for x
    using that by (rule in_gravity_source) simp
  then show ?thesis by (simp add: rowsInGrid_def list_all_iff)
qed

lemma grid_initialBlocks: "uniqueCells (initialBlocks gen) \<and> rowsInGrid (initialBlocks gen)"
  by (simp add: initialBlocks_def uniqueCells_def rowsInGrid_def GRID_COLS_def INITIAL_ROWS_def
      GRID_ROWS_def upt_conv_Cons)

lemma grid_addNewRow:
  assumes "uniqueCells (blocks s)" and "rowsInGrid (blocks s)"
  shows "uniqueCells (blocks (addNewRow gen s)) \<and> rowsInGrid (blocks (addNewRow gen s))"
proof (cases "list_ex (\<lambda>b. row b \<le> 0) (blocks s)")
  case True
  with assms show ?thesis by (simp add: addNewRow_simps)
next
  case False
  let ?up = "map (\<lambda>b. b\<lparr> row := row b - 1 \<rparr>) (blocks s)"
  have "map (\<lambda>b. (row b, col b)) ?up = map (\<lambda>(r, c). (r - 1, c)) (map (\<lambda>b. (row b, col b)) (blocks s))"
    by simp
  moreover have "inj_on (\<lambda>(r :: int, c :: int). (r - 1, c)) A" for A
    by (auto simp: inj_on_def)
  ultimately have up: "distinct (map (\<lambda>b. (row b, col b)) ?up)"
    using assms(1) by (simp only: uniqueCells_def distinct_map)
  have new: "distinct (map (\<lambda>b. (row b, col b)) (newRow gen))"
    by (simp add: newRow_def GRID_COLS_def upt_conv_Cons)
  have low: "row x \<le> GRID_ROWS - 2" if "x \<in> set ?up" for x
    using that assms(2) by (auto simp: rowsInGrid_def list_all_iff)
  have bottom: "row x = GRID_ROWS - 1" if "x \<in> set (newRow gen)" for x
    using that by (auto simp: newRow_def)
  have l: "fst p \<le> GRID_ROWS - 2" if "p \<in> (\<lambda>b. (row b, col b)) ` set ?up" for p
    using that assms(2) by (auto simp: rowsInGrid_def list_all_iff)
  have b: "fst p = GRID_ROWS - 1" if "p \<in> (\<lambda>b. (row b, col b)) ` set (newRow gen)" for p
    using that bottom by auto
  have "(\<lambda>b. (row b, col b)) ` set ?up \<inter> (\<lambda>b. (row b, col b)) ` set (newRow gen) = {}"
  proof (rule ccontr)
    assume "\<not> ?thesis"
    then obtain p where "p \<in> (\<lambda>b. (row b, col b)) ` set ?up"
      and "p \<in> (\<lambda>b. (row b, col b)) ` set (newRow gen)"
      by blast
    with l [of p] b [of p] show False by simp
  qed
  then have "set (map (\<lambda>b. (row b, col b)) ?up) \<inter> set (map (\<lambda>b. (row b, col b)) (newRow gen)) = {}"
    by (simp only: set_map)
  with up new have u: "uniqueCells (?up @ newRow gen)"
    by (simp only: uniqueCells_def map_append distinct_append)
  have "rowsInGrid (?up @ newRow gen)"
    using low bottom by (fastforce simp: rowsInGrid_def list_all_iff)
  with u False show ?thesis by (simp add: addNewRow_simps)
qed

lemma reachable_grid: "reachable s \<Longrightarrow> uniqueCells (blocks s) \<and> rowsInGrid (blocks s)"
proof (induction rule: reachable.induct)
  case (start gen u selectedMode s)
  then show ?case using grid_initialBlocks [of gen] by (simp add: initGame_def)
next
  case (ticked s gen)
  then show ?case using grid_addNewRow [of s gen] by (simp add: tick_def)
next
  case (toggled s i)
  then show ?case by (simp add: toggleBlock_def)
next
  case (checked s u)
  then show ?case by (simp add: sumCheck_def Let_def uniqueCells_gravity rowsInGrid_gravity)
next
  case (paused s p)
  then show ?case by simp
next
  case (menu s)
  then show ?case by simp
qed

text \<open>
  C5. In every reachable state at most one block occupies a given \<open>(row, col)\<close> pair.
  \<open>initGame\<close> establishes this, \<open>addNewRow\<close> keeps it on reachable states, and the gravity
  pass yields it for the blocks that survive a clear.
\<close>

theorem cell_uniqueness:
  assumes "reachable s"
  shows "length (filter (\<lambda>b. row b = r \<and> col b = c) (blocks s)) \<le> 1
       \<and> uniqueCells (blocks s)
       \<and> uniqueCells (blocks (initGame gen u selectedMode s0))
       \<and> uniqueCells (blocks (addNewRow gen s))
       \<and> uniqueCells (gravity (filter (\<lambda>b. id_b b \<notin> set (selectedIds s)) (blocks s)))"
proof -
  from assms have g: "uniqueCells (blocks s)" "rowsInGrid (blocks s)"
    by (simp_all add: reachable_grid)
  from g(1) have "length (filter (\<lambda>b. (row b, col b) = (r, c)) (blocks s)) \<le> 1"
    unfolding uniqueCells_def by (rule at_most_one_per_key)
  then have one: "length (filter (\<lambda>b. row b = r \<and> col b = c) (blocks s)) \<le> 1" by simp
  have i: "uniqueCells (blocks (initGame gen u selectedMode s0))"
    using grid_initialBlocks [of gen] by (simp add: initGame_def)
  from g have "uniqueCells (blocks (addNewRow gen s))" by (simp add: grid_addNewRow)
  with one g(1) i show ?thesis by (simp add: uniqueCells_gravity)
qed

theorem cell_uniqueness_witness:
  "reachable playedState
   \<and> length (filter (\<lambda>b. row b = 9 \<and> col b = 0) (blocks playedState)) \<le> 1
   \<and> uniqueCells (blocks playedState)
   \<and> uniqueCells (blocks (addNewRow zeroGen playedState))"
proof -
  have "reachable playedState"
    unfolding playedState_def by (intro reachable.intros)
  from this cell_uniqueness [OF this, of 9 0 zeroGen 0 Classic idle] show ?thesis by simp
qed

section \<open>Ticks and spawns\<close>

lemma speed_level_1: "speed 1 = 13 / 20"
  by (simp add: speed_def)

lemma runTicks_append:
  "runTicks (xs @ ys) s =
     (case runTicks xs s of (s', n) \<Rightarrow>
        (case runTicks ys s' of (s'', m) \<Rightarrow> (s'', m + n)))"
  by (induction xs arbitrary: s) (simp_all split: prod.splits)

lemma runTicks_inactive: "\<not> active s \<Longrightarrow> runTicks gs s = (s, 0)"
  by (induction gs) (auto simp: active_def tick_def)

lemma runTicks_quiet:
  assumes "active s" and "level s = 1"
    and "scrollProgress s + of_nat (length gs) * (13 / 20) < 100"
  shows "runTicks gs s = (s\<lparr> scrollProgress := scrollProgress s + of_nat (length gs) * (13 / 20) \<rparr>, 0)"
  using assms
proof (induction gs arbitrary: s)
  case Nil
  then show ?case by simp
next
  case (Cons g gs)
  let ?s = "s\<lparr> scrollProgress := scrollProgress s + 13 / 20 \<rparr>"
  define d :: rat where "d = of_nat (length gs) * (13 / 20)"
  have d: "0 \<le> d" by (simp add: d_def)
  have e: "(of_nat (length (g # gs)) :: rat) * (13 / 20) = 13 / 20 + d"
    by (simp add: d_def algebra_simps)
  from Cons.prems(3) have less: "scrollProgress s + (13 / 20 + d) < 100"
    unfolding e .
  with d have small: "scrollProgress s + 13 / 20 < 100" by linarith
  from less have rest: "scrollProgress ?s + of_nat (length gs) * (13 / 20) < 100"
    by (simp add: d_def add.assoc)
  from Cons.prems(1,2) small have t: "tick g s = (?s, False)"
    by (simp add: tick_def active_def speed_level_1)
  from Cons.prems(1,2) have "active ?s" "level ?s = 1" by (simp_all add: active_def)
  from Cons.IH [OF this rest] t show ?case by (simp add: algebra_simps)
qed

lemma addNewRow_after_scroll:
  "(addNewRow g (s\<lparr> scrollProgress := p \<rparr>))\<lparr> scrollProgress := 0 \<rparr> = addNewRow g s"
  by (simp add: addNewRow_simps)

lemma runTicks_cycle:
  assumes "active s" and "level s = 1" and "scrollProgress s = 0" and "length xs = 153"
  shows "runTicks (xs @ [g]) s = (addNewRow g s, 1)"
proof -
  let ?s = "s\<lparr> scrollProgress := 1989 / 20 \<rparr>"
  from assms have q: "runTicks xs s = (?s, 0)"
    using runTicks_quiet [of s xs] by simp
  from assms(1,2) have "tick g ?s = ((addNewRow g ?s)\<lparr> scrollProgress := 0 \<rparr>, True)"
    by (simp add: tick_def active_def speed_level_1)
  then have "tick g ?s = (addNewRow g s, True)"
    by (simp only: addNewRow_after_scroll)
  with q show ?thesis by (simp add: runTicks_append)
qed

lemma runTicks_first_spawn:
  assumes "active s" and "level s = 1" and "scrollProgress s = 0" and "154 \<le> length gs"
  shows "runTicks gs s =
           (fst (runTicks (drop 154 gs) (addNewRow (gs ! 153) s)),
            snd (runTicks (drop 154 gs) (addNewRow (gs ! 153) s)) + 1)"
proof -
  from assms(4) have "take 154 gs = take 153 gs @ [gs ! 153]"
    by (simp add: take_Suc_conv_app_nth [of 153 gs, simplified])
  then have split: "gs = (take 153 gs @ [gs ! 153]) @ drop 154 gs"
    by (metis append_take_drop_id)
  from assms(4) have "length (take 153 gs) = 153" by simp
  from runTicks_cycle [OF assms(1,2,3) this, of "gs ! 153"]
  have "runTicks ((take 153 gs @ [gs ! 153]) @ drop 154 gs) s =
           (fst (runTicks (drop 154 gs) (addNewRow (gs ! 153) s)),
            snd (runTicks (drop 154 gs) (addNewRow (gs ! 153) s)) + 1)"
    by (simp only: runTicks_append [of "take 153 gs @ [gs ! 153]"]) (simp split: prod.splits)
  with split show ?thesis by simp
qed

lemma runTicks_spawn_count:
  assumes "active s" and "level s = 1" and "scrollProgress s = 0"
    and "length gs = 154 * k + r" and "r < 154"
    and "\<not> gameOver (fst (runTicks gs s))"
  shows "snd (runTicks gs s) = k"
  using assms
proof (induction k arbitrary: s gs)
  case 0
  then have "scrollProgress s + of_nat (length gs) * (13 / 20) < 100" by simp
  with 0 show ?case by (simp add: runTicks_quiet)
next
  case (Suc k)
  let ?s = "addNewRow (gs ! 153) s" and ?rest = "drop 154 gs"
  from Suc.prems(4) have long: "154 \<le> length gs" by simp
  note run = runTicks_first_spawn [OF Suc.prems(1,2,3) long]
  have a: "active ?s"
  proof (rule ccontr)
    assume "\<not> active ?s"
    then have "runTicks ?rest ?s = (?s, 0)" by (rule runTicks_inactive)
    with run Suc.prems(6) have "\<not> gameOver ?s" by simp
    with Suc.prems(1) \<open>\<not> active ?s\<close> show False
      by (simp add: active_def addNewRow_keeps)
  qed
  have "level ?s = 1" "scrollProgress ?s = 0"
    using Suc.prems(2) by (simp_all add: addNewRow_keeps)
  moreover from Suc.prems(4) have "length ?rest = 154 * k + r" by simp
  moreover from run Suc.prems(6) have "\<not> gameOver (fst (runTicks ?rest ?s))" by simp
  ultimately have "snd (runTicks ?rest ?s) = k"
    using a Suc.prems(5) by (intro Suc.IH)
  with run show ?case by simp
qed

lemma addNewRow_headroom:
  assumes "list_all (\<lambda>b. int (Suc n) \<le> row b) (blocks s)" and "int n \<le> GRID_ROWS - 1"
  shows "gameOver (addNewRow g s) = gameOver s
       \<and> list_all (\<lambda>b. int n \<le> row b) (blocks (addNewRow g s))"
proof -
  from assms(1) have "\<not> list_ex (\<lambda>b. row b \<le> 0) (blocks s)"
    by (auto simp: list_all_iff list_ex_iff)
  then have b: "blocks (addNewRow g s) = map (\<lambda>b. b\<lparr> row := row b - 1 \<rparr>) (blocks s) @ newRow g"
    and o: "gameOver (addNewRow g s) = gameOver s"
    by (simp_all add: addNewRow_simps)
  from assms(1) have "list_all (\<lambda>b. int n \<le> row b) (map (\<lambda>b. b\<lparr> row := row b - 1 \<rparr>) (blocks s))"
    by (auto simp: list_all_iff)
  moreover from assms(2) have "list_all (\<lambda>b. int n \<le> row b) (newRow g)"
    by (simp add: newRow_def list_all_iff)
  ultimately show ?thesis using b o by simp
qed

lemma runTicks_headroom:
  assumes "active s" and "level s = 1" and "scrollProgress s = 0"
    and "length gs = 154 * n + r" and "r < 154"
    and "list_all (\<lambda>b. int n \<le> row b) (blocks s)" and "int n \<le> GRID_ROWS"
  shows "\<not> gameOver (fst (runTicks gs s))"
  using assms
proof (induction n arbitrary: s gs)
  case 0
  then have "scrollProgress s + of_nat (length gs) * (13 / 20) < 100" by simp
  with 0 show ?case by (simp add: runTicks_quiet active_def)
next
  case (Suc n)
  let ?s = "addNewRow (gs ! 153) s" and ?rest = "drop 154 gs"
  from Suc.prems(4) have long: "154 \<le> length gs" by simp
  note run = runTicks_first_spawn [OF Suc.prems(1,2,3) long]
  from Suc.prems(7) have n: "int n \<le> GRID_ROWS - 1" by simp
  note room = addNewRow_headroom [OF Suc.prems(6) n, of "gs ! 153"]
  from room Suc.prems(1) have "active ?s" by (simp add: active_def addNewRow_keeps)
  moreover have "level ?s = 1" "scrollProgress ?s = 0"
    using Suc.prems(2) by (simp_all add: addNewRow_keeps)
  moreover from Suc.prems(4) have "length ?rest = 154 * n + r" by simp
  moreover from room have "list_all (\<lambda>b. int n \<le> row b) (blocks ?s)" by simp
  moreover from n have "int n \<le> GRID_ROWS" by simp
  ultimately have "\<not> gameOver (fst (runTicks ?rest ?s))"
    using Suc.prems(5) by (intro Suc.IH)
  with run show ?case by simp
qed

text \<open>
  C8. With exact arithmetic, from \<open>scrollProgress = 0\<close> at level 1 the speed is
  \<open>0.65\<close> per tick. A tick calls \<open>addNewRow\<close> exactly when the progress plus the speed
  reaches 100, and the progress is then 0; otherwise the progress grows by the speed. A run
  of 1000 ticks of a started game that is neither paused nor over, and that does not end in
  game over, calls \<open>addNewRow\<close> exactly 6 times, which is
  \<open>floor (1000 * 0.65 / 100)\<close>.
\<close>

theorem thousand_ticks_six_spawns:
  assumes "gameStarted s" and "\<not> isPaused s" and "\<not> gameOver s"
    and "level s = 1" and "scrollProgress s = 0"
    and "length gs = 1000" and "\<not> gameOver (fst (runTicks gs s))"
  shows "speed (level s) = 65 / 100
       \<and> snd (runTicks gs s) = 6
       \<and> snd (runTicks gs s) = nat \<lfloor>1000 * speed (level s) / 100\<rfloor>
       \<and> snd (tick g s) = (scrollProgress s + speed (level s) \<ge> 100)
       \<and> scrollProgress (fst (tick g s))
           = (if scrollProgress s + speed (level s) \<ge> 100 then 0
              else scrollProgress s + speed (level s))"
proof -
  have sp: "speed (level s) = 65 / 100" using assms(4) by (simp add: speed_def)
  have a: "active s" using assms(1,2,3) by (simp add: active_def)
  have "length gs = 154 * 6 + 76" using assms(6) by simp
  with a assms(4,5,7) have six: "snd (runTicks gs s) = 6"
    by (intro runTicks_spawn_count [of s gs 6 76]) simp_all
  have "\<lfloor>(13::rat) / 2\<rfloor> = 6" by (rule floor_unique) simp_all
  then have fl: "nat \<lfloor>1000 * speed (level s) / 100\<rfloor> = 6"
    by (simp add: sp)
  have t: "snd (tick g s) = (scrollProgress s + speed (level s) \<ge> 100)
       \<and> scrollProgress (fst (tick g s))
           = (if scrollProgress s + speed (level s) \<ge> 100 then 0
              else scrollProgress s + speed (level s))"
    using assms(1,2,3) by (simp add: tick_def)
  from sp six fl t show ?thesis by simp
qed

theorem thousand_ticks_six_spawns_witness:
  "gameStarted freshGame \<and> \<not> isPaused freshGame \<and> \<not> gameOver freshGame
   \<and> level freshGame = 1 \<and> scrollProgress freshGame = 0
   \<and> length (replicate 1000 zeroGen) = 1000
   \<and> \<not> gameOver (fst (runTicks (replicate 1000 zeroGen) freshGame))
   \<and> snd (runTicks (replicate 1000 zeroGen) freshGame) = 6"
proof -
  have h: "gameStarted freshGame" "\<not> isPaused freshGame" "\<not> gameOver freshGame"
    "level freshGame = 1" "scrollProgress freshGame = 0"
    by (simp_all add: freshGame_def initGame_def idle_def)
  have len: "length (replicate 1000 zeroGen) = 1000" by simp
  have rows: "list_all (\<lambda>b. int 6 \<le> row b) (blocks freshGame)"
    by (simp add: freshGame_def initGame_def initialBlocks_def GRID_COLS_def INITIAL_ROWS_def
        GRID_ROWS_def upt_conv_Cons)
  have alive: "\<not> gameOver (fst (runTicks (replicate 1000 zeroGen) freshGame))"
    using h rows by (intro runTicks_headroom [of _ _ 6 76]) (simp_all add: active_def GRID_ROWS_def)
  from thousand_ticks_six_spawns [OF h len alive] h len alive show ?thesis by simp
qed

end
